theory Spec2Isabelle
  imports Complex_Main "HOL-Library.Sublist" "HOL-Library.Log_Nat"
begin

section \<open>Strings\<close>

text \<open>
  A JavaScript string is a sequence of code units. The model uses \<open>string\<close>, so a
  character is a code unit in the range U+0000 .. U+00FF (Latin-1); the functions below
  are \<open>String.prototype.trim\<close>, \<open>toLowerCase\<close> and \<open>includes\<close> on that range.
\<close>

text \<open>White space and line terminators of ECMAScript below U+0100:
  TAB, LF, VT, FF, CR, SPACE and NO-BREAK SPACE.\<close>

definition is_ws :: "char \<Rightarrow> bool" where
  "is_ws c = (of_char c \<in> {9, 10, 11, 12, 13, 32, 160 :: nat})"

definition trim :: "string \<Rightarrow> string" where
  "trim s = rev (dropWhile is_ws (rev (dropWhile is_ws s)))"




section \<open>Data model\<close>

text \<open>\<^verbatim>\<open>interface Option { id: string; text: string; votes: number; }\<close>
  A vote count is a natural number. A double holds the integers up to \<open>2^53\<close> exactly,
  and \<open>votes + 1\<close> is exact below that bound; the model does not stop there.\<close>

record PollOption =
  opt_id :: string
  opt_text :: string
  opt_votes :: nat

text \<open>\<^verbatim>\<open>interface Poll { id; question; description?; options; category; createdAt; imageUrl? }\<close>
  An absent \<open>description\<close> and a \<open>null\<close> or absent \<open>imageUrl\<close> are \<open>None\<close>.\<close>

record Poll =
  poll_id :: string
  question :: string
  description :: "string option"
  options :: "PollOption list"
  category :: string
  createdAt :: nat
  imageUrl :: "string option"

text \<open>The two pieces of component state of \<open>VoteApp\<close>: \<open>polls\<close> and the ledger
  \<open>votes\<close>, a \<open>Record<string, string>\<close> from poll id to option id. The ledger is the
  map of the own properties of that object; a key that names an inherited property
  (such as \<open>constructor\<close>; no result of \<open>uid()\<close> is one) is outside the model.
  Every handler runs to its end on the state of the last render, so the \<open>polls\<close> and
  \<open>votes\<close> a handler closes over are the current ones.\<close>

record app =
  polls :: "Poll list"
  votes :: "string \<rightharpoonup> string"

text \<open>The argument of \<open>createPoll\<close> is a \<open>Partial<Poll>\<close>: every field may be missing.
  \<open>createPoll\<close> reads \<open>question\<close>, \<open>options\<close>, \<open>description\<close>, \<open>category\<close> and \<open>imageUrl\<close>.\<close>

record PollDraft =
  d_question :: "string option"
  d_description :: "string option"
  d_options :: "PollOption list option"
  d_category :: "string option"
  d_imageUrl :: "string option"

section \<open>The poll store\<close>

text \<open>
  \<open>createPoll\<close> calls \<open>uid()\<close> once for every element of \<open>input.options\<close>, in order, and
  then once for the poll; \<open>uid k\<close> is the result of the \<open>k\<close>-th of these calls and
  \<open>now\<close> the result of \<open>Date.now()\<close>. The call to the remote service is fired and never
  awaited; it does not touch the component state and is left out.
\<close>

definition cleanOptions :: "(nat \<Rightarrow> string) \<Rightarrow> PollOption list \<Rightarrow> PollOption list" where
  "cleanOptions uid opts =
     filter (\<lambda>x. length (trim (opt_text x)) > 0)
       (map (\<lambda>(i, x). \<lparr>opt_id = uid i, opt_text = opt_text x, opt_votes = 0\<rparr>)
          (enumerate 0 opts))"

definition newPoll :: "(nat \<Rightarrow> string) \<Rightarrow> nat \<Rightarrow> PollDraft \<Rightarrow> string \<Rightarrow> PollOption list \<Rightarrow> Poll" where
  "newPoll uid now input q opts =
     \<lparr>poll_id = uid (length opts),
      question = trim q,
      description = map_option trim (d_description input),
      options = cleanOptions uid opts,
      category = (case d_category input of
                    None \<Rightarrow> ''General''
                  | Some c \<Rightarrow> if c = [] then ''General'' else c),
      createdAt = now,
      imageUrl = (case d_imageUrl input of
                    None \<Rightarrow> None
                  | Some u \<Rightarrow> if u = [] then None else Some u)\<rparr>"

definition createPoll :: "(nat \<Rightarrow> string) \<Rightarrow> nat \<Rightarrow> PollDraft \<Rightarrow> app \<Rightarrow> app" where
  "createPoll uid now input s =
     (case d_question input of
        None \<Rightarrow> s
      | Some q \<Rightarrow>
          (case d_options input of
             None \<Rightarrow> s
           | Some opts \<Rightarrow>
               if q = [] \<or> length opts < 2 then s
               else s\<lparr>polls := newPoll uid now input q opts # polls s\<rparr>))"

text \<open>\<open>vote\<close> begins with \<open>if (votes[pollId]) return;\<close>, which tests the truthiness
  of the entry: a missing entry and the empty string are both falsy. After the guard
  it maps over all polls and all options of the polls with the id \<open>pollId\<close>, and sets
  the ledger entry, whether or not any poll or option matched.\<close>

definition truthy :: "string option \<Rightarrow> bool" where
  "truthy v = (case v of None \<Rightarrow> False | Some x \<Rightarrow> x \<noteq> [])"

definition bump :: "string \<Rightarrow> PollOption \<Rightarrow> PollOption" where
  "bump optionId x = (if opt_id x = optionId then x\<lparr>opt_votes := opt_votes x + 1\<rparr> else x)"

definition vote :: "string \<Rightarrow> string \<Rightarrow> app \<Rightarrow> app" where
  "vote pollId optionId s =
     (if truthy (votes s pollId) then s
      else \<lparr>polls = map (\<lambda>p. if poll_id p \<noteq> pollId then p
                              else p\<lparr>options := map (bump optionId) (options p)\<rparr>) (polls s),
            votes = (votes s)(pollId \<mapsto> optionId)\<rparr>)"

text \<open>\<open>deletePoll\<close>: \<open>prev.filter(p => p.id !== pollId)\<close> on the polls and
  \<open>delete v[pollId]\<close> on a copy of the ledger, both set in the same handler.\<close>

definition deletePoll :: "string \<Rightarrow> app \<Rightarrow> app" where
  "deletePoll pollId s =
     \<lparr>polls = filter (\<lambda>p. poll_id p \<noteq> pollId) (polls s),
      votes = (votes s)(pollId := None)\<rparr>"



section \<open>The poll form\<close>

text \<open>
  \<open>PollForm.submit\<close> is the only caller of \<open>createPoll\<close>: it cleans the raw option
  strings, checks the question and the number of usable options, and only then hands
  the draft on (\<open>None\<close>: it returns without calling \<open>onSubmit\<close>).
\<close>

record PollForm =
  f_question :: string
  f_description :: string
  f_category :: string
  f_options :: "string list"
  f_imageUrl :: string
  f_imagePreview :: string

definition cleaned :: "string list \<Rightarrow> string list" where
  "cleaned opts = filter (\<lambda>t. t \<noteq> []) (map trim opts)"

definition submit :: "PollForm \<Rightarrow> PollDraft option" where
  "submit f =
     (if trim (f_question f) = [] \<or> length (cleaned (f_options f)) < 2 then None
      else Some \<lparr>d_question = Some (f_question f),
                 d_description = Some (f_description f),
                 d_options = Some (map (\<lambda>t. \<lparr>opt_id = [], opt_text = t, opt_votes = 0\<rparr>)
                                     (cleaned (f_options f))),
                 d_category = Some (f_category f),
                 d_imageUrl = Some (if f_imageUrl f \<noteq> [] then f_imageUrl f
                                    else f_imagePreview f)\<rparr>)"

section \<open>Sequences of operations\<close>




section \<open>Predicates of the specification\<close>



text \<open>A draft none of whose options is blank, which is what the form passes on.\<close>

definition blank_free :: "PollDraft \<Rightarrow> bool" where
  "blank_free input =
     (case d_options input of
        None \<Rightarrow> True
      | Some opts \<Rightarrow> list_all (\<lambda>x. trim (opt_text x) \<noteq> []) opts)"






section \<open>Sample data\<close>

definition demo_poll :: Poll where
  "demo_poll =
     \<lparr>poll_id = ''p1'', question = ''Best editor?'', description = None,
      options = [\<lparr>opt_id = ''a'', opt_text = ''vi'', opt_votes = 3\<rparr>,
                 \<lparr>opt_id = ''b'', opt_text = ''emacs'', opt_votes = 4\<rparr>],
      category = ''Tech'', createdAt = 1000, imageUrl = None\<rparr>"

definition demo_poll2 :: Poll where
  "demo_poll2 =
     \<lparr>poll_id = ''p2'', question = ''Which club wins?'', description = Some ''Fan poll'',
      options = [\<lparr>opt_id = ''c'', opt_text = ''Club X'', opt_votes = 0\<rparr>,
                 \<lparr>opt_id = ''d'', opt_text = ''Club Y'', opt_votes = 1\<rparr>],
      category = ''Sports'', createdAt = 2000, imageUrl = None\<rparr>"

definition demo_app :: app where
  "demo_app = \<lparr>polls = [demo_poll, demo_poll2], votes = [''p2'' \<mapsto> ''d'']\<rparr>"





section \<open>The result calculator\<close>

text \<open>
  A JavaScript number is an IEEE 754 double. A finite double is a rational \<open>m * 2^k\<close>
  with \<open>|m| < 2^53\<close>, and \<open>/\<close> and \<open>*\<close> return the exact result rounded to the
  nearest double, ties to the even mantissa. The range of the exponent is not part of
  the model: for arguments that are integers up to \<open>2^53\<close>, as vote counts are,
  no intermediate result of \<open>pct\<close> overflows or is subnormal.
\<close>

definition round_half_even :: "rat \<Rightarrow> int" where
  "round_half_even q =
     (let f = \<lfloor>q\<rfloor>; r = q - of_int f
      in if r < 1 / 2 then f else if 1 / 2 < r then f + 1 else if even f then f else f + 1)"

text \<open>The binary exponent \<open>e\<close> of a positive rational \<open>a / b\<close>: \<open>2^e \<le> a / b < 2^(e + 1)\<close>.
  It is the difference of the bit lengths, or one less.\<close>

definition exponent :: "rat \<Rightarrow> int" where
  "exponent x =
     (let (a, b) = quotient_of x;
          la = bitlen a; lb = bitlen b
      in if b * 2 ^ nat la \<le> a * 2 ^ nat lb then la - lb else la - lb - 1)"

definition round_double :: "rat \<Rightarrow> rat" where
  "round_double x =
     (if x = 0 then 0
      else let ulp = power_int 2 (exponent \<bar>x\<bar> - 52)
           in sgn x * of_int (round_half_even (\<bar>x\<bar> / ulp)) * ulp)"

definition fdiv :: "rat \<Rightarrow> rat \<Rightarrow> rat" where
  "fdiv x y = round_double (x / y)"

definition fmul :: "rat \<Rightarrow> rat \<Rightarrow> rat" where
  "fmul x y = round_double (x * y)"

text \<open>\<open>Math.round\<close>: the nearest integer, a tie going up.\<close>

definition Math_round :: "rat \<Rightarrow> int" where
  "Math_round x = \<lfloor>x + 1 / 2\<rfloor>"

text \<open>\<open>PollCard\<close>: \<open>pct = (v) => totalVotes ? Math.round((v / totalVotes) * 100) : 0\<close>,
  a closure over \<open>totalVotes\<close>, here the argument \<open>tot\<close>.\<close>

definition pct :: "nat \<Rightarrow> nat \<Rightarrow> int" where
  "pct tot v =
     (if tot = 0 then 0
      else Math_round (fmul (fdiv (of_nat v) (of_nat tot)) 100))"

text \<open>The percentage of the specification, in exact arithmetic: the quotient times 100,
  rounded to the nearest integer, a tie going up; 0 for a total of 0.\<close>

definition percentage_spec :: "nat \<Rightarrow> nat \<Rightarrow> int" where
  "percentage_spec optionVotes tot =
     (if tot = 0 then 0
      else \<lfloor>(of_nat optionVotes / of_nat tot * 100 :: rat) + 1 / 2\<rfloor>)"

section \<open>Persistence\<close>















































section \<open>Voting\<close>








text \<open>What the guard of \<open>vote\<close> does give: an entry that is a non-empty string blocks
  the vote.\<close>

lemma vote_truthy_noop: "truthy (votes s pollId) \<Longrightarrow> vote pollId optionId s = s"
  by (simp add: vote_def)




text \<open>
  C3: once the ledger has an entry for \<open>pollId\<close>, \<open>vote(pollId, _)\<close> changes nothing.
  The guard \<open>if (votes[pollId]) return\<close> tests truthiness, so an entry that is the empty
  string does not block. After \<open>vote(p1, "")\<close> the ledger has the entry \<open>p1 -> ""\<close>; a
  second \<open>vote(p1, b)\<close> still counts, and replaces the entry.
\<close>

theorem vote_empty_entry_votes_again:
  "votes (vote ''p1'' [] demo_app) ''p1'' = Some []
   \<and> map opt_votes (options (polls (vote ''p1'' [] demo_app) ! 0)) = [3, 4]
   \<and> map opt_votes (options (polls (vote ''p1'' ''b'' (vote ''p1'' [] demo_app)) ! 0)) = [3, 5]
   \<and> votes (vote ''p1'' ''b'' (vote ''p1'' [] demo_app)) ''p1'' = Some ''b''"
  by (simp add: vote_def truthy_def bump_def demo_app_def demo_poll_def demo_poll2_def)



text \<open>
  C10: with no ledger entry for \<open>pollId\<close>, \<open>vote\<close> keeps the number and the order of the
  polls and of the options of every poll; every poll keeps its id, question,
  description, category, creation time and image; every option keeps its id and text;
  a poll with another id and an option with another id are unchanged as a whole; and
  every ledger entry for another poll is unchanged.
\<close>

theorem vote_frame:
  assumes "votes s pollId = None"
  shows "length (polls (vote pollId optionId s)) = length (polls s)
    \<and> (\<forall>i < length (polls s).
         poll_id (polls (vote pollId optionId s) ! i) = poll_id (polls s ! i)
       \<and> question (polls (vote pollId optionId s) ! i) = question (polls s ! i)
       \<and> description (polls (vote pollId optionId s) ! i) = description (polls s ! i)
       \<and> category (polls (vote pollId optionId s) ! i) = category (polls s ! i)
       \<and> createdAt (polls (vote pollId optionId s) ! i) = createdAt (polls s ! i)
       \<and> imageUrl (polls (vote pollId optionId s) ! i) = imageUrl (polls s ! i)
       \<and> (poll_id (polls s ! i) \<noteq> pollId \<longrightarrow>
            polls (vote pollId optionId s) ! i = polls s ! i)
       \<and> length (options (polls (vote pollId optionId s) ! i)) = length (options (polls s ! i))
       \<and> (\<forall>j < length (options (polls s ! i)).
            opt_id (options (polls (vote pollId optionId s) ! i) ! j)
              = opt_id (options (polls s ! i) ! j)
          \<and> opt_text (options (polls (vote pollId optionId s) ! i) ! j)
              = opt_text (options (polls s ! i) ! j)
          \<and> (opt_id (options (polls s ! i) ! j) \<noteq> optionId \<longrightarrow>
               options (polls (vote pollId optionId s) ! i) ! j = options (polls s ! i) ! j)))
    \<and> (\<forall>k. k \<noteq> pollId \<longrightarrow> votes (vote pollId optionId s) k = votes s k)"
  using assms by (simp add: vote_def truthy_def bump_def)

theorem vote_frame_witness:
  "votes demo_app ''p1'' = None
   \<and> length (polls (vote ''p1'' ''b'' demo_app)) = 2
   \<and> polls (vote ''p1'' ''b'' demo_app) ! 1 = demo_poll2
   \<and> question (polls (vote ''p1'' ''b'' demo_app) ! 0) = ''Best editor?''
   \<and> options (polls (vote ''p1'' ''b'' demo_app) ! 0) ! 0
       = \<lparr>opt_id = ''a'', opt_text = ''vi'', opt_votes = 3\<rparr>
   \<and> opt_text (options (polls (vote ''p1'' ''b'' demo_app) ! 0) ! 1) = ''emacs''
   \<and> votes (vote ''p1'' ''b'' demo_app) ''p2'' = Some ''d''"
proof -
  have 1: "votes demo_app ''p1'' = None"
    by (simp add: demo_app_def)
  from vote_frame [OF 1, of "''b''"] 1 show ?thesis
    by (simp add: demo_app_def demo_poll_def demo_poll2_def)
qed

section \<open>Deleting\<close>

text \<open>
  C5, as stated, ends: \<open>deletePoll\<close> on a poll id that is not in the collection is a
  no-op. It fails where the ledger still holds an entry for that id (such an entry is
  left by a \<open>vote\<close> for a poll that does not exist): \<open>deletePoll\<close> removes the entry.
\<close>

theorem deletePoll_absent_counterexample:
  "''gone'' \<notin> poll_id ` set (polls (vote ''gone'' ''x'' demo_app))
   \<and> votes (vote ''gone'' ''x'' demo_app) ''gone'' = Some ''x''
   \<and> votes (deletePoll ''gone'' (vote ''gone'' ''x'' demo_app)) ''gone'' = None
   \<and> deletePoll ''gone'' (vote ''gone'' ''x'' demo_app) \<noteq> vote ''gone'' ''x'' demo_app"
proof -
  let ?s = "vote ''gone'' ''x'' demo_app"
  have 1: "''gone'' \<notin> poll_id ` set (polls ?s)"
    by (simp add: vote_def truthy_def demo_app_def demo_poll_def demo_poll2_def)
  have 2: "votes ?s ''gone'' = Some ''x''"
    by (simp add: vote_def truthy_def demo_app_def)
  have 3: "votes (deletePoll ''gone'' ?s) ''gone'' = None"
    by (simp add: deletePoll_def)
  from 2 3 have 4: "deletePoll ''gone'' ?s \<noteq> ?s"
    by auto
  from 1 2 3 4 show ?thesis by blast
qed

text \<open>
  C5, amended: \<open>deletePoll\<close> is one step of the state; after it no poll of the
  collection has the id \<open>pollId\<close> and the ledger has no entry for \<open>pollId\<close>, the other
  polls keep their order and the other ledger entries their values. Deleting again
  changes nothing. For an id that is not in the collection the collection is unchanged,
  and the whole state is unchanged when the ledger has no entry for the id either.
\<close>

theorem deletePoll_removes_both:
  "pollId \<notin> poll_id ` set (polls (deletePoll pollId s))
   \<and> votes (deletePoll pollId s) pollId = None
   \<and> polls (deletePoll pollId s) = filter (\<lambda>p. poll_id p \<noteq> pollId) (polls s)
   \<and> (\<forall>k. k \<noteq> pollId \<longrightarrow> votes (deletePoll pollId s) k = votes s k)
   \<and> deletePoll pollId (deletePoll pollId s) = deletePoll pollId s
   \<and> (pollId \<notin> poll_id ` set (polls s) \<longrightarrow> polls (deletePoll pollId s) = polls s)
   \<and> (pollId \<notin> poll_id ` set (polls s) \<and> votes s pollId = None \<longrightarrow> deletePoll pollId s = s)"
  by (cases s) (auto simp: deletePoll_def filter_id_conv fun_upd_idem)

theorem deletePoll_removes_both_witness:
  "polls (deletePoll ''p2'' demo_app) = [demo_poll]
   \<and> votes (deletePoll ''p2'' demo_app) ''p2'' = None
   \<and> votes demo_app ''p2'' = Some ''d''
   \<and> deletePoll ''p2'' (deletePoll ''p2'' demo_app) = deletePoll ''p2'' demo_app
   \<and> ''p3'' \<notin> poll_id ` set (polls demo_app)
   \<and> votes demo_app ''p3'' = None
   \<and> deletePoll ''p3'' demo_app = demo_app"
proof -
  have 1: "''p3'' \<notin> poll_id ` set (polls demo_app)" and 2: "votes demo_app ''p3'' = None"
    by (simp_all add: demo_app_def demo_poll_def demo_poll2_def)
  have 3: "votes demo_app ''p2'' = Some ''d''"
    by (simp add: demo_app_def)
  have 4: "filter (\<lambda>p. poll_id p \<noteq> ''p2'') (polls demo_app) = [demo_poll]"
    by (simp add: demo_app_def demo_poll_def demo_poll2_def)
  from deletePoll_removes_both [of "''p2''" demo_app]
    deletePoll_removes_both [of "''p3''" demo_app] 1 2 3 4
  show ?thesis by simp
qed

section \<open>Creating\<close>

lemma cleanOptions_alt:
  "cleanOptions uid opts =
     map (\<lambda>i. \<lparr>opt_id = uid i, opt_text = opt_text (opts ! i), opt_votes = 0\<rparr>)
       (filter (\<lambda>i. trim (opt_text (opts ! i)) \<noteq> []) [0..<length opts])"
proof -
  have "map (\<lambda>(i, x). \<lparr>opt_id = uid i, opt_text = opt_text x, opt_votes = 0\<rparr>) (enumerate 0 opts)
        = map (\<lambda>i. \<lparr>opt_id = uid i, opt_text = opt_text (opts ! i), opt_votes = 0\<rparr>)
            [0..<length opts]"
    by (rule nth_equalityI) (simp_all add: nth_enumerate_eq)
  then show ?thesis
    by (simp add: cleanOptions_def filter_map comp_def)
qed

lemma map_over_indices: "map (\<lambda>i. f (xs ! i)) [0..<length xs] = map f xs"
  by (rule nth_equalityI) simp_all

lemma cleanOptions_blank_free:
  assumes "list_all (\<lambda>x. trim (opt_text x) \<noteq> []) opts"
  shows "length (cleanOptions uid opts) = length opts"
    and "map opt_id (cleanOptions uid opts) = map uid [0..<length opts]"
    and "map opt_text (cleanOptions uid opts) = map opt_text opts"
proof -
  have "filter (\<lambda>i. trim (opt_text (opts ! i)) \<noteq> []) [0..<length opts] = [0..<length opts]"
    using assms by (auto simp: list_all_length filter_id_conv)
  then show "length (cleanOptions uid opts) = length opts"
    and "map opt_id (cleanOptions uid opts) = map uid [0..<length opts]"
    and "map opt_text (cleanOptions uid opts) = map opt_text opts"
    by (simp_all add: cleanOptions_alt comp_def map_over_indices)
qed

text \<open>The path through the form: \<open>submit\<close> hands on a draft exactly when the question
  is not blank and at least two cleaned options remain, and \<open>createPoll\<close> then prepends a
  poll whose option texts are the cleaned strings.\<close>

lemma trim_Nil_iff: "trim s = [] \<longleftrightarrow> (\<forall>c \<in> set s. is_ws c)"
proof
  assume "trim s = []"
  then have all: "\<forall>c \<in> set (dropWhile is_ws s). is_ws c"
    by (simp add: trim_def dropWhile_eq_Nil_conv)
  have "dropWhile is_ws s = []"
  proof (rule ccontr)
    assume ne: "dropWhile is_ws s \<noteq> []"
    then have "\<not> is_ws (hd (dropWhile is_ws s))"
      by (rule hd_dropWhile)
    moreover from ne have "hd (dropWhile is_ws s) \<in> set (dropWhile is_ws s)"
      by simp
    ultimately show False using all by blast
  qed
  then show "\<forall>c \<in> set s. is_ws c"
    by (simp add: dropWhile_eq_Nil_conv)
next
  assume "\<forall>c \<in> set s. is_ws c"
  then show "trim s = []"
    by (auto simp: trim_def dest: set_dropWhileD)
qed

lemma trim_has_ink: "trim r \<noteq> [] \<Longrightarrow> \<exists>c \<in> set (trim r). \<not> is_ws c"
proof -
  let ?zs = "dropWhile is_ws (rev (dropWhile is_ws r))"
  assume "trim r \<noteq> []"
  then have ne: "?zs \<noteq> []"
    by (simp add: trim_def)
  then have "\<not> is_ws (hd ?zs)"
    by (rule hd_dropWhile)
  moreover from ne have "hd ?zs \<in> set (trim r)"
    by (simp add: trim_def)
  ultimately show ?thesis by blast
qed

lemma trim_trim_nonempty: "t \<in> set (cleaned opts) \<Longrightarrow> trim t \<noteq> []"
proof -
  assume "t \<in> set (cleaned opts)"
  then obtain r where "t = trim r" and "t \<noteq> []"
    by (auto simp: cleaned_def)
  then show ?thesis
    using trim_has_ink [of r] by (auto simp: trim_Nil_iff)
qed

lemma submit_None_iff:
  "submit f = None \<longleftrightarrow> trim (f_question f) = [] \<or> length (cleaned (f_options f)) < 2"
  by (simp add: submit_def)

lemma submit_createPoll:
  assumes "submit f = Some d"
  shows "\<exists>p. polls (createPoll uid now d s) = p # polls s
           \<and> map opt_text (options p) = cleaned (f_options f)
           \<and> question p = trim (f_question f)
           \<and> 2 \<le> length (options p)"
proof -
  let ?opts = "map (\<lambda>t. \<lparr>opt_id = [], opt_text = t, opt_votes = 0\<rparr>) (cleaned (f_options f))"
  from assms have q: "trim (f_question f) \<noteq> []" and n: "2 \<le> length (cleaned (f_options f))"
    and dq: "d_question d = Some (f_question f)" and dopts: "d_options d = Some ?opts"
    by (auto simp: submit_def split: if_splits)
  from q have q': "f_question f \<noteq> []"
    by (auto simp: trim_Nil_iff)
  have bf: "list_all (\<lambda>x. trim (opt_text x) \<noteq> []) ?opts"
    by (simp add: list_all_iff trim_trim_nonempty)
  have "map opt_text (cleanOptions uid ?opts) = cleaned (f_options f)"
    and "length (cleanOptions uid ?opts) = length (cleaned (f_options f))"
    using cleanOptions_blank_free [OF bf, of uid] by (simp_all add: comp_def)
  with n q' show ?thesis
    by (simp add: createPoll_def dq dopts newPoll_def)
qed

lemma submit_blank_free: "submit f = Some d \<Longrightarrow> blank_free d"
  by (auto simp: submit_def blank_free_def list_all_iff trim_trim_nonempty split: if_splits)


section \<open>The invariant of the collection\<close>









section \<open>Filtering\<close>







section \<open>Percentages\<close>

lemma exponent_bounds:
  assumes "0 < x"
  shows "power_int 2 (exponent x) \<le> x" and "x < power_int 2 (exponent x + 1)"
proof -
  obtain a b where q: "quotient_of x = (a, b)" by (cases "quotient_of x")
  then have b: "0 < b" by (rule quotient_of_denom_pos)
  from q have x: "x = of_int a / of_int b" by (rule quotient_of_div)
  with assms b have a: "0 < a"
    by (simp add: zero_less_divide_iff)
  define la where "la = bitlen a"
  define lb where "lb = bitlen b"
  define A :: rat where "A = 2 ^ nat la"
  define B :: rat where "B = 2 ^ nat lb"
  have la1: "1 \<le> la" and lb1: "1 \<le> lb"
    using a b by (auto simp: la_def lb_def bitlen_alt_def)
  have Apos: "0 < A" and Bpos: "0 < B" by (simp_all add: A_def B_def)
  have ia: "2 ^ nat (la - 1) \<le> a" "a < 2 ^ nat la"
    using bitlen_bounds [OF a] by (simp_all add: la_def)
  have ib: "2 ^ nat (lb - 1) \<le> b" "b < 2 ^ nat lb"
    using bitlen_bounds [OF b] by (simp_all add: lb_def)
  have sa: "nat la = Suc (nat (la - 1))" and sb: "nat lb = Suc (nat (lb - 1))"
    using la1 lb1 by linarith+
  have hA: "(2::rat) ^ nat (la - 1) * 2 = A"
    unfolding A_def by (subst sa) simp
  have hB: "(2::rat) ^ nat (lb - 1) * 2 = B"
    unfolding B_def by (subst sb) simp
  have "(of_int (2 ^ nat (la - 1)) :: rat) \<le> of_int a"
    using ia(1) by (simp only: of_int_le_iff)
  then have ra0: "(2::rat) ^ nat (la - 1) \<le> of_int a"
    by (simp only: of_int_power of_int_numeral)
  have ra1: "A \<le> 2 * of_int a"
    using ra0 hA by linarith
  have "(of_int a :: rat) < of_int (2 ^ nat la)"
    using ia(2) by (simp only: of_int_less_iff)
  then have ra2: "of_int a < A"
    by (simp only: of_int_power of_int_numeral A_def)
  have "(of_int (2 ^ nat (lb - 1)) :: rat) \<le> of_int b"
    using ib(1) by (simp only: of_int_le_iff)
  then have rb0: "(2::rat) ^ nat (lb - 1) \<le> of_int b"
    by (simp only: of_int_power of_int_numeral)
  have rb1: "B \<le> 2 * of_int b"
    using rb0 hB by linarith
  have "(of_int b :: rat) < of_int (2 ^ nat lb)"
    using ib(2) by (simp only: of_int_less_iff)
  then have rb2: "of_int b < B"
    by (simp only: of_int_power of_int_numeral B_def)
  have pA: "power_int (2::rat) la = A"
    using la1 by (simp add: A_def power_int_def)
  have pB: "power_int (2::rat) lb = B"
    using lb1 by (simp add: B_def power_int_def)
  have pd: "power_int (2::rat) (la - lb) = A / B"
    by (simp add: power_int_diff pA pB)
  have pd1: "power_int (2::rat) (la - lb - 1) = A / (2 * B)"
    by (simp add: power_int_diff pA pB)
  have pd2: "power_int (2::rat) (la - lb + 1) = 2 * A / B"
    by (simp add: power_int_add pd)
  have ra: "0 < (of_int a :: rat)" and rb: "0 < (of_int b :: rat)"
    using a b by simp_all
  show "power_int 2 (exponent x) \<le> x" and "x < power_int 2 (exponent x + 1)"
  proof -
    have cond: "(b * 2 ^ nat la \<le> a * 2 ^ nat lb) \<longleftrightarrow> (of_int b * A \<le> of_int a * B)"
    proof -
      have "(b * 2 ^ nat la \<le> a * 2 ^ nat lb)
            \<longleftrightarrow> ((of_int (b * 2 ^ nat la) :: rat) \<le> of_int (a * 2 ^ nat lb))"
        by (simp only: of_int_le_iff)
      then show ?thesis by (simp add: A_def B_def)
    qed
    have both: "power_int 2 (exponent x) \<le> x \<and> x < power_int 2 (exponent x + 1)"
    proof (cases "of_int b * A \<le> of_int a * B")
      case True
      then have e: "exponent x = la - lb"
        using cond by (simp add: exponent_def q la_def lb_def)
      have 1: "A / B \<le> x"
        using True Bpos rb by (simp add: x field_simps)
      have "of_int a * B \<le> of_int a * (2 * of_int b)"
        using rb1 ra by (intro mult_left_mono) simp_all
      also have "\<dots> < A * (2 * of_int b)"
        using ra2 rb by (intro mult_strict_right_mono) simp_all
      finally have 2: "x < 2 * A / B"
        using Bpos rb by (simp add: x field_simps)
      from 1 2 show ?thesis by (simp add: e pd pd2)
    next
      case False
      then have e: "exponent x = la - lb - 1"
        using cond by (simp add: exponent_def q la_def lb_def)
      have "A * of_int b \<le> (2 * of_int a) * of_int b"
        using ra1 rb by (intro mult_right_mono) simp_all
      also have "\<dots> < (2 * of_int a) * B"
        using rb2 ra by (intro mult_strict_left_mono) simp_all
      finally have 1: "A / (2 * B) \<le> x"
        using Bpos rb by (simp add: x field_simps)
      have 2: "x < A / B"
        using False Bpos rb by (simp add: x field_simps)
      from 1 2 show ?thesis by (simp add: e pd pd1)
    qed
    then show "power_int 2 (exponent x) \<le> x" and "x < power_int 2 (exponent x + 1)"
      by simp_all
  qed
qed

lemma round_half_even_err: "\<bar>of_int (round_half_even q) - q\<bar> \<le> 1 / 2"
proof -
  have "of_int \<lfloor>q\<rfloor> \<le> q" and "q < of_int \<lfloor>q\<rfloor> + 1"
    by linarith+
  then show ?thesis
    by (auto simp: round_half_even_def Let_def)
qed

lemma round_half_even_nonneg: "0 \<le> q \<Longrightarrow> 0 \<le> round_half_even q"
  by (auto simp: round_half_even_def Let_def)

lemma round_double_err:
  assumes "0 \<le> x"
  shows "\<bar>round_double x - x\<bar> \<le> x / 2 ^ 53" and "0 \<le> round_double x"
proof -
  have both: "\<bar>round_double x - x\<bar> \<le> x / 2 ^ 53 \<and> 0 \<le> round_double x"
  proof (cases "x = 0")
    case True
    then show ?thesis by (simp add: round_double_def)
  next
    case False
    with assms have pos: "0 < x" by simp
    define e where "e = exponent x"
    define ulp :: rat where "ulp = power_int 2 (e - 52)"
    define m where "m = round_half_even (x / ulp)"
    have ulp_pos: "0 < ulp" by (simp add: ulp_def)
    have rd: "round_double x = of_int m * ulp"
      using pos by (simp add: round_double_def e_def ulp_def m_def Let_def)
    have "power_int 2 e \<le> x"
      using exponent_bounds(1) [OF pos] by (simp add: e_def)
    moreover have "power_int (2::rat) e = ulp * 2 ^ 52"
      by (simp add: ulp_def power_int_diff)
    ultimately have ulp_le: "ulp * 2 ^ 52 \<le> x" by simp
    have "\<bar>of_int m - x / ulp\<bar> \<le> 1 / 2"
      unfolding m_def by (rule round_half_even_err)
    then have "\<bar>of_int m - x / ulp\<bar> * ulp \<le> 1 / 2 * ulp"
      using ulp_pos by (intro mult_right_mono) simp_all
    moreover have "\<bar>of_int m - x / ulp\<bar> * ulp = \<bar>of_int m * ulp - x\<bar>"
    proof -
      have "\<bar>of_int m - x / ulp\<bar> * ulp = \<bar>(of_int m - x / ulp) * ulp\<bar>"
        using ulp_pos by (simp add: abs_mult)
      also have "(of_int m - x / ulp) * ulp = of_int m * ulp - x"
        using ulp_pos by (simp add: field_simps)
      finally show ?thesis .
    qed
    ultimately have "\<bar>round_double x - x\<bar> \<le> ulp / 2"
      by (simp add: rd)
    also have "ulp / 2 \<le> x / 2 ^ 53"
      using ulp_le by simp
    finally have 1: "\<bar>round_double x - x\<bar> \<le> x / 2 ^ 53" .
    have "0 \<le> x / ulp" using pos ulp_pos by simp
    then have "0 \<le> m" unfolding m_def by (rule round_half_even_nonneg)
    then have 2: "0 \<le> round_double x"
      using ulp_pos by (simp add: rd)
    from 1 2 show ?thesis by simp
  qed
  then show "\<bar>round_double x - x\<bar> \<le> x / 2 ^ 53" and "0 \<le> round_double x"
    by simp_all
qed

lemma percent_err:
  fixes q :: rat
  assumes "0 \<le> q"
  shows "\<bar>fmul (round_double q) 100 - q * 100\<bar> \<le> q * 100 * (2 / 2 ^ 53 + 1 / 2 ^ 106)"
proof -
  define u :: rat where "u = 1 / 2 ^ 53"
  define x1 where "x1 = round_double q"
  define y where "y = round_double (x1 * 100)"
  have u: "0 < u" by (simp add: u_def)
  have e1: "\<bar>x1 - q\<bar> \<le> q * u" and p1: "0 \<le> x1"
    using round_double_err [OF assms] by (simp_all add: x1_def u_def)
  have p100: "0 \<le> x1 * 100" using p1 by simp
  have e2: "\<bar>y - x1 * 100\<bar> \<le> x1 * 100 * u"
    using round_double_err(1) [OF p100] by (simp add: y_def u_def)
  have x1_le: "x1 \<le> q * (1 + u)"
    using e1 by (simp add: algebra_simps abs_le_iff)
  have "x1 * 100 * u \<le> q * (1 + u) * 100 * u"
    using x1_le u by (intro mult_right_mono) simp_all
  with e2 have e2': "\<bar>y - x1 * 100\<bar> \<le> q * (1 + u) * 100 * u"
    by linarith
  have e1': "\<bar>x1 * 100 - q * 100\<bar> \<le> q * u * 100"
    using e1 by (simp add: abs_le_iff algebra_simps)
  have "\<bar>y - q * 100\<bar> \<le> \<bar>y - x1 * 100\<bar> + \<bar>x1 * 100 - q * 100\<bar>"
    by linarith
  also have "\<dots> \<le> q * (1 + u) * 100 * u + q * u * 100"
    using e2' e1' by linarith
  also have "\<dots> = q * 100 * (2 * u + u * u)"
    by (simp add: algebra_simps)
  also have "2 * u + u * u = 2 / 2 ^ 53 + 1 / 2 ^ 106"
    by (simp add: u_def)
  finally show ?thesis
    by (simp add: fmul_def y_def x1_def)
qed

lemma pct_close:
  assumes "0 < t" and "v \<le> 2 ^ 44"
  shows "\<bar>fmul (fdiv (of_nat v) (of_nat t)) 100 - of_nat v / of_nat t * 100\<bar>
         < 1 / (2 * of_nat t)"
proof -
  define q :: rat where "q = of_nat v / of_nat t"
  define c :: rat where "c = 2 / 2 ^ 53 + 1 / 2 ^ 106"
  have tpos: "0 < (of_nat t :: rat)" using assms(1) by simp
  have q0: "0 \<le> q" by (simp add: q_def)
  have "(of_nat v :: rat) \<le> of_nat (2 ^ 44)"
    using assms(2) by (simp only: of_nat_le_iff)
  then have vle: "(of_nat v :: rat) \<le> 2 ^ 44" by simp
  have "of_nat v * (200 * c) \<le> 2 ^ 44 * (200 * c)"
    using vle by (intro mult_right_mono) (simp_all add: c_def)
  also have "\<dots> < 1" by (simp add: c_def)
  finally have small: "of_nat v * (200 * c) < 1" .
  have "\<bar>fmul (round_double q) 100 - q * 100\<bar> \<le> q * 100 * c"
    unfolding c_def by (rule percent_err [OF q0])
  also have "q * 100 * c = of_nat v * (200 * c) / (2 * of_nat t)"
    by (simp add: q_def)
  also have "\<dots> < 1 / (2 * of_nat t)"
    by (rule divide_strict_right_mono) (use small tpos in simp_all)
  finally show ?thesis
    by (simp add: q_def fdiv_def)
qed

lemma percentage_spec_div:
  "0 < t \<Longrightarrow> percentage_spec v t = (200 * int v + int t) div (2 * int t)"
proof -
  assume t: "0 < t"
  have "(of_nat v / of_nat t * 100 :: rat) + 1 / 2
        = of_int (200 * int v + int t) / of_int (2 * int t)"
    using t by (simp add: field_simps)
  then have "\<lfloor>(of_nat v / of_nat t * 100 :: rat) + 1 / 2\<rfloor>
        = \<lfloor>(of_int (200 * int v + int t) / of_int (2 * int t) :: rat)\<rfloor>"
    by simp
  also have "\<dots> = (200 * int v + int t) div (2 * int t)"
    by (rule floor_divide_of_int_eq)
  finally show ?thesis using t by (simp add: percentage_spec_def)
qed

lemma pct_vs_spec:
  assumes "0 < t" and "v \<le> 2 ^ 44"
  shows "frac (of_nat v / of_nat t * 100 :: rat) \<noteq> 1 / 2 \<Longrightarrow> pct t v = percentage_spec v t"
    and "pct t v = percentage_spec v t \<or> pct t v = percentage_spec v t - 1"
proof -
  define E :: rat where "E = of_nat v / of_nat t * 100"
  define y where "y = fmul (fdiv (of_nat v) (of_nat t)) 100"
  define n where "n = 200 * int v + int t"
  define D where "D = 2 * int t"
  define N where "N = n div D"
  define r where "r = n mod D"
  have Dpos: "0 < D" using assms(1) by (simp add: D_def)
  have rD: "0 \<le> r" "r < D" using Dpos by (simp_all add: r_def)
  have n: "n = N * D + r" by (simp add: N_def r_def)
  have Dr: "0 < (of_int D :: rat)" using Dpos by simp
  have close: "\<bar>y - E\<bar> < 1 / of_int D"
    using pct_close [OF assms] by (simp add: y_def E_def D_def)
  have "E + 1 / 2 = of_int n / of_int D"
    using assms(1) by (simp add: E_def n_def D_def field_simps)
  also have "\<dots> = of_int N + of_int r / of_int D"
    using Dr by (simp add: n field_simps)
  finally have E: "E + 1 / 2 = of_int N + of_int r / of_int D" .
  have spec: "percentage_spec v t = N"
    using assms(1) by (simp add: percentage_spec_div N_def n_def D_def)
  have pct: "pct t v = \<lfloor>y + 1 / 2\<rfloor>"
    using assms(1) by (simp add: pct_def Math_round_def y_def)
  have rho: "0 \<le> of_int r / (of_int D :: rat)"
    using rD(1) Dr by simp
  have split: "(of_int r + 1) / (of_int D :: rat) = of_int r / of_int D + 1 / of_int D"
    by (simp add: add_divide_distrib)
  have lo: "of_int N - 1 / of_int D < y + 1 / 2"
    using close E rho by (simp only: abs_less_iff) linarith
  have hi: "y + 1 / 2 < of_int N + (of_int r + 1) / of_int D"
    using close E by (simp only: abs_less_iff split) linarith
  have Dge: "1 / (of_int D :: rat) \<le> 1"
    using Dpos by simp
  have nontie: "pct t v = N" if "r \<noteq> 0"
  proof -
    from that rD have r1: "1 \<le> r" and r2: "r + 1 \<le> D" by simp_all
    have "(1 :: rat) / of_int D \<le> of_int r / of_int D"
      using r1 Dr by (intro divide_right_mono) simp_all
    with close E have l: "of_int N < y + 1 / 2"
      by (simp only: abs_less_iff) linarith
    have "(of_int (r + 1) :: rat) \<le> of_int D"
      using r2 by (simp only: of_int_le_iff)
    then have "(of_int r + 1) / (of_int D :: rat) \<le> 1"
      using Dr by simp
    with hi have h: "y + 1 / 2 < of_int N + 1" by linarith
    from l h have "\<lfloor>y + 1 / 2\<rfloor> = N" by (intro floor_unique) simp_all
    then show ?thesis by (simp add: pct)
  qed
  have tie: "pct t v = N \<or> pct t v = N - 1" if "r = 0"
  proof -
    from that hi have h: "y + 1 / 2 < of_int N + 1" using Dge by simp
    from lo Dge have l: "of_int (N - 1) < y + 1 / 2" by simp
    from l have "of_int (N - 1) \<le> y + 1 / 2" by (rule less_imp_le)
    then have a: "N - 1 \<le> \<lfloor>y + 1 / 2\<rfloor>" by (simp only: le_floor_iff)
    from h have "y + 1 / 2 < of_int (N + 1)" by simp
    then have b: "\<lfloor>y + 1 / 2\<rfloor> < N + 1" by (simp only: floor_less_iff)
    from a b show ?thesis by (simp only: pct) linarith
  qed
  have half: "frac E = 1 / 2" if "r = 0"
  proof -
    from that E have "E - 1 / 2 = of_int (N - 1)" by simp
    then have "E - 1 / 2 \<in> \<int>" by (simp only: Ints_of_int)
    then show ?thesis unfolding frac_unique_iff by simp
  qed
  show "frac (of_nat v / of_nat t * 100 :: rat) \<noteq> 1 / 2 \<Longrightarrow> pct t v = percentage_spec v t"
    using nontie half by (auto simp: spec E_def)
  show "pct t v = percentage_spec v t \<or> pct t v = percentage_spec v t - 1"
    using nontie tie by (cases "r = 0") (auto simp: spec)
qed

text \<open>
  C7, as stated: for a total above 0 the percentage is the exact quotient times 100,
  rounded half up. It fails on doubles: 23 of 40 votes are exactly 57.5 percent, which
  rounds up to 58; but \<open>23 / 40\<close> is the double just below 0.575, its product with 100
  rounds to the double just below 57.5, and \<open>Math.round\<close> gives 57.
\<close>

theorem pct_half_counterexample:
  "pct 40 23 = 57 \<and> percentage_spec 23 40 = 58
   \<and> (of_nat 23 / of_nat 40 * 100 :: rat) = 115 / 2
   \<and> fdiv (of_nat 23) (of_nat 40) = 2589569785738035 / 4503599627370496
   \<and> fmul (fdiv (of_nat 23) (of_nat 40)) 100 = 8092405580431359 / 140737488355328"
  by code_simp

text \<open>
  C7, amended: \<open>pct\<close> is 0 for a total of 0; for a total \<open>t\<close> with \<open>0 < t \<le> 2^53\<close> and
  a count \<open>v \<le> 2^44\<close> it is the exact percentage rounded half up whenever \<open>v / t * 100\<close>
  is not exactly halfway between two integers, and at such a tie it is that value or
  one less; the counts 42, 58 and 11 of 111 give 38, 52 and 10.
\<close>

theorem pct_percentage:
  "pct 0 v = 0
   \<and> (0 < t \<and> t \<le> 2 ^ 53 \<and> v \<le> 2 ^ 44 \<longrightarrow>
        (frac (of_nat v / of_nat t * 100 :: rat) \<noteq> 1 / 2 \<longrightarrow> pct t v = percentage_spec v t)
        \<and> (pct t v = percentage_spec v t \<or> pct t v = percentage_spec v t - 1))
   \<and> map (pct 111) [42, 58, 11] = [38, 52, 10]"
proof -
  have 1: "pct 0 v = 0"
    by (simp add: pct_def)
  have 2: "map (pct 111) [42, 58, 11] = [38, 52, 10]"
    by code_simp
  from 1 2 pct_vs_spec [of t v] show ?thesis
    by blast
qed

theorem pct_percentage_witness:
  "(0::nat) < 111 \<and> (111::nat) \<le> 2 ^ 53 \<and> (42::nat) \<le> 2 ^ 44
   \<and> frac (of_nat 42 / of_nat 111 * 100 :: rat) \<noteq> 1 / 2
   \<and> pct 111 42 = 38 \<and> percentage_spec 42 111 = 38 \<and> pct 0 42 = 0"
proof -
  have 1: "(0::nat) < 111" and 2: "(111::nat) \<le> 2 ^ 53" and 3: "(42::nat) \<le> 2 ^ 44"
    by simp_all
  have 4: "frac (of_nat 42 / of_nat 111 * 100 :: rat) \<noteq> 1 / 2"
    by code_simp
  have 5: "percentage_spec 42 111 = 38"
    by code_simp
  from pct_percentage [of 42 111] 1 2 3 4 have "pct 111 42 = percentage_spec 42 111" and "pct 0 42 = 0"
    by blast+
  with 1 2 3 4 5 show ?thesis by simp
qed

section \<open>Parsing what was saved\<close>


subsection \<open>Quoted strings\<close>









subsection \<open>Numbers\<close>














subsection \<open>Values\<close>

















subsection \<open>Saved polls and votes\<close>














end
